theory Spec2Isabelle
  imports Complex_Main "HOL-Library.Word"
begin

unbundle bit_operations_syntax

section \<open>Go's float64\<close>

text \<open>
  The driver computes on \<^verbatim>\<open>float64\<close>. A finite float64 is a real number of the form
  \<open>m * 2^e\<close> with \<open>\<bar>m\<bar> < 2^53\<close> and \<open>- 1074 \<le> e\<close>; the type below carries any real in
  \<open>Fin\<close>, and \<open>is_float64\<close> says which ones a float64 can hold. The two zeros are one
  value here: the program never tells them apart (\<^verbatim>\<open>==\<close>, \<^verbatim>\<open><\<close> and \<^verbatim>\<open>math.Abs\<close> treat them
  alike, \<^verbatim>\<open>math.Signbit\<close> is only called behind \<^verbatim>\<open>math.Abs(angle) > 90\<close>, and every divisor is
  a nonzero constant or a converted integer, whose zero is \<open>+0\<close>).
\<close>

datatype float64 = Fin real | PInf | NInf | NaN

text \<open>Rounding to the nearest integer, ties to even.\<close>

definition rne :: "real \<Rightarrow> int" where
  "rne x = (let f = \<lfloor>x\<rfloor>; d = x - of_int f in
     if d < 1 / 2 then f else if 1 / 2 < d then f + 1 else if even f then f else f + 1)"

text \<open>
  The exponent of the last mantissa bit of the float64 nearest to \<open>x\<close>: 52 below the
  exponent of \<open>x\<close>, and never below that of the subnormals.
\<close>

definition quantum :: "real \<Rightarrow> int" where
  "quantum x = max (\<lfloor>log 2 \<bar>x\<bar>\<rfloor> - 52) (- 1074)"

text \<open>IEEE 754 round-to-nearest-even to binary64, the rounding of every Go operation.\<close>

definition f64_round :: "real \<Rightarrow> float64" where
  "f64_round x = (if x = 0 then Fin 0 else
     let q = quantum x; r = of_int (rne (x / 2 powi q)) * 2 powi q in
     if 2 powi 1024 \<le> \<bar>r\<bar> then (if x < 0 then NInf else PInf) else Fin r)"

definition is_float64 :: "float64 \<Rightarrow> bool" where
  "is_float64 f = (case f of Fin r \<Rightarrow> f64_round r = Fin r | _ \<Rightarrow> True)"

text \<open>\<^verbatim>\<open>math.Abs\<close>.\<close>

fun f64_abs :: "float64 \<Rightarrow> float64" where
  "f64_abs (Fin r) = Fin \<bar>r\<bar>"
| "f64_abs PInf = PInf"
| "f64_abs NInf = PInf"
| "f64_abs NaN = NaN"

text \<open>Go's \<^verbatim>\<open><\<close> and \<^verbatim>\<open>==\<close> on float64: false as soon as one side is NaN.\<close>

fun f64_less :: "float64 \<Rightarrow> float64 \<Rightarrow> bool" where
  "f64_less NaN _ = False"
| "f64_less _ NaN = False"
| "f64_less _ NInf = False"
| "f64_less NInf _ = True"
| "f64_less PInf _ = False"
| "f64_less _ PInf = True"
| "f64_less (Fin a) (Fin b) = (a < b)"

definition f64_eq :: "float64 \<Rightarrow> float64 \<Rightarrow> bool" where
  "f64_eq a b = (a \<noteq> NaN \<and> b \<noteq> NaN \<and> a = b)"

text \<open>
  \<^verbatim>\<open>math.Signbit\<close>. Its only call is reached when \<^verbatim>\<open>math.Abs(angle) > 90\<close>, which
  neither a zero nor a NaN satisfies; the value given to NaN is never read.
\<close>

fun Signbit :: "float64 \<Rightarrow> bool" where
  "Signbit (Fin r) = (r < 0)"
| "Signbit NInf = True"
| "Signbit PInf = False"
| "Signbit NaN = False"

text \<open>Go's \<^verbatim>\<open>/\<close> and \<^verbatim>\<open>*\<close> on float64. A zero divisor is \<open>+0\<close>.\<close>

fun f64_div :: "float64 \<Rightarrow> float64 \<Rightarrow> float64" where
  "f64_div NaN _ = NaN"
| "f64_div _ NaN = NaN"
| "f64_div (Fin a) (Fin b) =
     (if b = 0 then (if a = 0 then NaN else if a < 0 then NInf else PInf)
      else f64_round (a / b))"
| "f64_div (Fin a) _ = Fin 0"
| "f64_div PInf (Fin b) = (if b < 0 then NInf else PInf)"
| "f64_div NInf (Fin b) = (if b < 0 then PInf else NInf)"
| "f64_div _ _ = NaN"



section \<open>Conversions from float64 to integers\<close>

text \<open>
  \<^verbatim>\<open>int16(f)\<close>, \<^verbatim>\<open>uint16(f)\<close> and \<^verbatim>\<open>time.Duration(f)\<close> discard the fraction (truncation
  towards zero). When the truncated value does not fit the target type, or \<open>f\<close> is not
  finite, the conversion still succeeds and its value depends on the implementation; a
  \<open>platform\<close> says what it is there.
\<close>

type_synonym byte = "8 word"

definition trunc :: "real \<Rightarrow> int" where
  "trunc x = (if x < 0 then \<lceil>x\<rceil> else \<lfloor>x\<rfloor>)"

record platform =
  conv_int16 :: "float64 \<Rightarrow> 16 word"
  conv_uint16 :: "float64 \<Rightarrow> 16 word"
  conv_int64 :: "float64 \<Rightarrow> 64 word"

definition int16_of_float64 :: "platform \<Rightarrow> float64 \<Rightarrow> 16 word" where
  "int16_of_float64 P f = (case f of
       Fin r \<Rightarrow> if - 32768 \<le> trunc r \<and> trunc r \<le> 32767 then word_of_int (trunc r)
                else conv_int16 P f
     | _ \<Rightarrow> conv_int16 P f)"

definition uint16_of_float64 :: "platform \<Rightarrow> float64 \<Rightarrow> 16 word" where
  "uint16_of_float64 P f = (case f of
       Fin r \<Rightarrow> if 0 \<le> trunc r \<and> trunc r \<le> 65535 then word_of_int (trunc r)
                else conv_uint16 P f
     | _ \<Rightarrow> conv_uint16 P f)"


text \<open>One platform, for evaluating the driver on concrete inputs.\<close>

definition zero_platform :: platform where
  "zero_platform = \<lparr>conv_int16 = (\<lambda>_. 0), conv_uint16 = (\<lambda>_. 0), conv_int64 = (\<lambda>_. 0)\<rparr>"

text \<open>
  \<^verbatim>\<open>binary.LittleEndian.PutUint16(b, v)\<close> stores the low byte of \<open>v\<close> at \<open>b[0]\<close> and the high
  byte at \<open>b[1]\<close>. It panics on a slice shorter than two bytes; both callers pass a slice of
  length two.
\<close>

definition PutUint16 :: "byte list \<Rightarrow> 16 word \<Rightarrow> byte list" where
  "PutUint16 b v = b[0 := ucast v, 1 := ucast (drop_bit 8 v)]"

text \<open>Reading the two bytes back: the unsigned, and the signed 16-bit integer they hold.\<close>

definition Uint16 :: "byte list \<Rightarrow> 16 word" where
  "Uint16 b = ucast (b ! 0) OR push_bit 8 (ucast (b ! 1))"

section \<open>Constants from the data sheet\<close>

definition driveId :: "32 word" where
  "driveId = 0x220"

definition gearPark :: string where "gearPark = ''park''"
definition gearReverse :: string where "gearReverse = ''reverse''"
definition gearNeutral :: string where "gearNeutral = ''neutral''"
definition gearDrive :: string where "gearDrive = ''drive''"
definition gearEmergencyStop :: string where "gearEmergencyStop = ''emergency_stop''"

definition steerModeFrontWheelDrive :: string where
  "steerModeFrontWheelDrive = ''front-wheel-drive''"
definition steerModeRearWheelDrive :: string where
  "steerModeRearWheelDrive = ''rear-wheel-drive''"
definition steerModeFourWheelDrive :: string where
  "steerModeFourWheelDrive = ''four-wheel-drive''"
definition steerModeCrabSteering :: string where
  "steerModeCrabSteering = ''crab-steering''"

definition gears :: "string \<rightharpoonup> byte" where
  "gears = map_of [(gearPark, 0), (gearReverse, 1), (gearNeutral, 2), (gearDrive, 3),
     (gearEmergencyStop, 4)]"

definition steerModes :: "string \<rightharpoonup> byte" where
  "steerModes = map_of [(steerModeFrontWheelDrive, 0), (steerModeRearWheelDrive, 1),
     (steerModeFourWheelDrive, 2), (steerModeCrabSteering, 3)]"

text \<open>Go's \<^verbatim>\<open>m[k]\<close> on a map of bytes: the zero value when the key is absent.\<close>

definition index :: "(string \<rightharpoonup> byte) \<Rightarrow> string \<Rightarrow> byte" where
  "index m k = (case m k of Some v \<Rightarrow> v | None \<Rightarrow> 0)"

section \<open>The frame codec\<close>

record driveCommand =
  Accelerator :: float64
  Brake :: float64
  SteeringAngle :: float64
  Gear :: byte
  SteerMode :: byte

definition calculateSteeringAngleBytes :: "platform \<Rightarrow> float64 \<Rightarrow> byte list" where
  "calculateSteeringAngleBytes P angle =
     (let angle = (if f64_less (Fin 90) (f64_abs angle)
                   then (if Signbit angle then Fin (- 90) else Fin 90)
                   else angle);
          value = int16_of_float64 P (f64_div angle (Fin 0.0078125));
          angleBytes = replicate 2 0
      in PutUint16 angleBytes value)"

definition calculateAccelAndBrakeBytes :: "platform \<Rightarrow> float64 \<Rightarrow> byte list" where
  "calculateAccelAndBrakeBytes P accelPct =
     (if f64_eq accelPct (Fin 0) then [0, 0, 0x40, 0x06]
      else
        let accelPct = f64_abs accelPct;
            accelPct = f64_div accelPct (Fin 5);
            value = uint16_of_float64 P (f64_div accelPct (Fin 0.0625));
            acceloratorBytes = replicate 4 0
        in PutUint16 (take 2 acceloratorBytes) value @ drop 2 acceloratorBytes)"

text \<open>\<^verbatim>\<open>canbus.Frame\<close> and its kinds.\<close>

datatype Kind = SFF | EFF | RTR | ERR

record Frame =
  ID :: "32 word"
  Data :: "byte list"
  Kind :: Kind

text \<open>
  \<^verbatim>\<open>toFrame\<close> has a pointer receiver: it writes \<^verbatim>\<open>cmd.Gear\<close> through the pointer. The
  model returns the frame together with the command as the call leaves it.
\<close>

definition toFrame :: "platform \<Rightarrow> driveCommand \<Rightarrow> Frame \<times> driveCommand" where
  "toFrame P cmd =
     (let data = [];
          data = data @ calculateAccelAndBrakeBytes P (Accelerator cmd);
          data = data @ calculateSteeringAngleBytes P (SteeringAngle cmd);
          cmd = (if f64_less (Accelerator cmd) (Fin 0)
                 then cmd\<lparr>Gear := index gears gearReverse\<rparr> else cmd);
          data = data @ [Gear cmd, SteerMode cmd]
      in (\<lparr>ID = driveId, Data = data, Kind = SFF\<rparr>, cmd))"

definition stopCmd :: driveCommand where
  "stopCmd = \<lparr>Accelerator = Fin 0, Brake = Fin 100, SteeringAngle = Fin 0,
     Gear = index gears gearPark, SteerMode = index steerModes steerModeFourWheelDrive\<rparr>"

section \<open>Errors\<close>

text \<open>
  The error values the driver returns: the two a context can report, an error made of a
  message (\<^verbatim>\<open>errors.New\<close>, \<^verbatim>\<open>fmt.Errorf\<close>), and the one
  \<^verbatim>\<open>utils.NewUnimplementedInterfaceError\<close> builds, with the text it is given.
\<close>

datatype error =
    Canceled
  | DeadlineExceeded
  | ErrorString string
  | UnimplementedInterfaceError string

section \<open>Handing a command to the publish loop\<close>

text \<open>
  \<^verbatim>\<open>setNextCommand\<close> first reads \<^verbatim>\<open>ctx.Err()\<close> and returns it when it is not nil. Otherwise
  it enters the \<^verbatim>\<open>select\<close>, which evaluates \<^verbatim>\<open>cmd.toFrame\<close> before it waits.
\<close>

definition setNextCommand_enter ::
  "platform \<Rightarrow> error option \<Rightarrow> driveCommand \<Rightarrow> error + Frame \<times> driveCommand" where
  "setNextCommand_enter P ctx_err cmd =
     (case ctx_err of Some err \<Rightarrow> Inl err | None \<Rightarrow> Inr (toFrame P cmd))"

text \<open>
  How the \<^verbatim>\<open>select\<close> ends is decided outside the caller: \<^verbatim>\<open>ctx.Done()\<close> fires and
  \<^verbatim>\<open>ctx.Err()\<close> is the error given, or the publish loop receives the frame, or neither
  ever happens and the call does not return (\<open>None\<close>). A call that returns gives its
  error (\<open>None\<close> for nil), the frame handed off if any, and the command as it leaves it.
\<close>

datatype select_case = CtxDone error | Sent | Blocked

definition setNextCommand ::
  "platform \<Rightarrow> error option \<Rightarrow> select_case \<Rightarrow> driveCommand \<Rightarrow>
     (error option \<times> Frame option \<times> driveCommand) option" where
  "setNextCommand P ctx_err sel cmd =
     (case setNextCommand_enter P ctx_err cmd of
        Inl err \<Rightarrow> Some (Some err, None, cmd)
      | Inr (frame, cmd') \<Rightarrow>
          (case sel of
             CtxDone err \<Rightarrow> Some (Some err, None, cmd')
           | Sent \<Rightarrow> Some (None, Some frame, cmd')
           | Blocked \<Rightarrow> None))"

section \<open>The motion API\<close>






definition IsMoving :: "bool \<times> error option" where
  "IsMoving =
     (False, Some (UnimplementedInterfaceError ''intermodeBase does not yet support IsMoving()''))"

text \<open>
  \<^verbatim>\<open>DoCommand\<close> takes a map from strings to values of any type; \<open>fmt_s\<close> is how
  \<^verbatim>\<open>fmt\<close> prints such a value under \<^verbatim>\<open>%s\<close>. The map it returns is nil whenever it fails.
\<close>

definition DoCommand :: "('v \<Rightarrow> string) \<Rightarrow> (string \<rightharpoonup> 'v) \<Rightarrow> error + (string \<rightharpoonup> 'v)" where
  "DoCommand fmt_s cmd =
     (case cmd ''command'' of
        None \<Rightarrow> Inl (ErrorString ''missing 'command' value'')
      | Some name \<Rightarrow> Inl (ErrorString (''no such command: '' @ fmt_s name)))"

section \<open>The publish loop and a caller, running together\<close>

text \<open>
  The state of a driver with one call of \<^verbatim>\<open>setNextCommand\<close>: the driver's own context
  (\<^verbatim>\<open>cancelCtx\<close> of \<^verbatim>\<open>newBase\<close>, which \<^verbatim>\<open>Close\<close> cancels), where \<^verbatim>\<open>publishThread\<close> stands, its
  variable \<^verbatim>\<open>frame\<close>, the frames it has given to \<^verbatim>\<open>socket.Send\<close>, and the caller: the context
  it passed, the command its pointer refers to, and where its call stands.
\<close>

datatype loop_pc = AtCheck | AtSelect | AtSend | Exited

datatype call_pc = Idle | Pending Frame | Returned "error option"

record driver =
  cancelCtx :: "error option"
  loop_pc :: loop_pc
  loop_frame :: Frame
  wire :: "Frame list"
  caller_ctx :: "error option"
  caller_cmd :: driveCommand
  caller_pc :: call_pc

text \<open>
  One step of one task. \<open>Close\<close> is \<^verbatim>\<open>base.cancel()\<close>; \<open>CancelCaller\<close> ends the caller's
  context; \<open>Enter\<close> is the caller reaching the \<^verbatim>\<open>select\<close> of \<^verbatim>\<open>setNextCommand\<close> (or returning
  at its first check); \<open>CallerDone\<close> is its case \<^verbatim>\<open><-ctx.Done()\<close>. The loop: \<open>Check\<close> is
  \<^verbatim>\<open>if ctx.Err() != nil { return }\<close>; \<open>RecvDone\<close>, \<open>RecvFrame\<close> and \<open>Timeout\<close> are the three
  cases of its \<^verbatim>\<open>select\<close>, \<open>RecvFrame\<close> being at the same time the caller's case
  \<^verbatim>\<open>base.nextCommandCh <- frame\<close> (the channel has no buffer); \<open>Send\<close> is
  \<^verbatim>\<open>socket.Send(frame)\<close>, whose error is only logged. \<open>None\<close>: the step cannot be taken
  in that state.
\<close>

datatype action =
  Close | CancelCaller error | Enter | CallerDone | Check | RecvDone | RecvFrame | Timeout | Send

fun step :: "platform \<Rightarrow> action \<Rightarrow> driver \<Rightarrow> driver option" where
  "step P Close s =
     Some (s\<lparr>cancelCtx := (case cancelCtx s of None \<Rightarrow> Some Canceled | Some e \<Rightarrow> Some e)\<rparr>)"
| "step P (CancelCaller e) s =
     Some (s\<lparr>caller_ctx := (case caller_ctx s of None \<Rightarrow> Some e | Some e' \<Rightarrow> Some e')\<rparr>)"
| "step P Enter s =
     (if caller_pc s = Idle then
        (case setNextCommand_enter P (caller_ctx s) (caller_cmd s) of
           Inl err \<Rightarrow> Some (s\<lparr>caller_pc := Returned (Some err)\<rparr>)
         | Inr (frame, cmd) \<Rightarrow> Some (s\<lparr>caller_cmd := cmd, caller_pc := Pending frame\<rparr>))
      else None)"
| "step P CallerDone s =
     (case (caller_pc s, caller_ctx s) of
        (Pending _, Some err) \<Rightarrow> Some (s\<lparr>caller_pc := Returned (Some err)\<rparr>)
      | _ \<Rightarrow> None)"
| "step P Check s =
     (if loop_pc s = AtCheck
      then Some (s\<lparr>loop_pc := (if cancelCtx s \<noteq> None then Exited else AtSelect)\<rparr>)
      else None)"
| "step P RecvDone s =
     (if loop_pc s = AtSelect \<and> cancelCtx s \<noteq> None then Some (s\<lparr>loop_pc := AtSend\<rparr>)
      else None)"
| "step P RecvFrame s =
     (case (loop_pc s, caller_pc s) of
        (AtSelect, Pending f) \<Rightarrow>
          Some (s\<lparr>loop_pc := AtSend, loop_frame := f, caller_pc := Returned None\<rparr>)
      | _ \<Rightarrow> None)"
| "step P Timeout s =
     (if loop_pc s = AtSelect then Some (s\<lparr>loop_pc := AtSend\<rparr>) else None)"
| "step P Send s =
     (if loop_pc s = AtSend
      then Some (s\<lparr>loop_pc := AtCheck, wire := wire s @ [loop_frame s]\<rparr>)
      else None)"

fun run :: "platform \<Rightarrow> action list \<Rightarrow> driver \<Rightarrow> driver option" where
  "run P [] s = Some s"
| "run P (a # as) s = (case step P a s of None \<Rightarrow> None | Some s' \<Rightarrow> run P as s')"

text \<open>
  \<^verbatim>\<open>newBase\<close> starts the loop with the frame of the stop command; the caller has not called
  yet.
\<close>

definition newBase :: "platform \<Rightarrow> error option \<Rightarrow> driveCommand \<Rightarrow> driver" where
  "newBase P ctx cmd =
     \<lparr>cancelCtx = None, loop_pc = AtCheck, loop_frame = fst (toFrame P stopCmd), wire = [],
      caller_ctx = ctx, caller_cmd = cmd, caller_pc = Idle\<rparr>"

section \<open>The encoders as the specification words them\<close>

text \<open>
  The specification's \<^verbatim>\<open>encodeSteeringAngle\<close>: clamp to \<open>[-90, 90]\<close>, convert by
  \<open>round (angleDeg / 0.0078125)\<close> to a signed 16-bit integer, emit it little-endian.
\<close>

definition spec_encodeSteeringAngle :: "real \<Rightarrow> byte list" where
  "spec_encodeSteeringAngle angleDeg =
     (let a = max (- 90) (min 90 angleDeg);
          v = (word_of_int (round (a / 0.0078125)) :: 16 word)
      in [ucast v, ucast (drop_bit 8 v)])"

text \<open>
  The specification's \<^verbatim>\<open>encodeAcceleration\<close>: the braking pattern at 0; otherwise
  \<open>\<bar>accelPct\<bar>\<close> divided by 5, converted by \<open>round (value / 0.0625)\<close> to an unsigned 16-bit
  integer, little-endian in the first two bytes, two zero bytes after.
\<close>

definition spec_encodeAcceleration :: "real \<Rightarrow> byte list" where
  "spec_encodeAcceleration accelPct =
     (if accelPct = 0 then [0, 0, 0x40, 0x06]
      else
        let v = (word_of_int (round (\<bar>accelPct\<bar> / 5 / 0.0625)) :: 16 word)
        in [ucast v, ucast (drop_bit 8 v), 0, 0])"

section \<open>Rounding to float64: exact cases\<close>

lemma floor_log2_iff:
  assumes "0 < x"
  shows "\<lfloor>log 2 x\<rfloor> = k \<longleftrightarrow> 2 powi k \<le> x \<and> x < 2 powi (k + 1)"
proof -
  have a: "(2::real) powr (of_int k) = 2 powi k"
    by (rule powr_real_of_int') simp_all
  have b: "(2::real) powr (of_int k + 1) = 2 powi (k + 1)"
    using powr_real_of_int'[of 2 "k + 1"] by simp
  show ?thesis
    using floor_log_eq_powr_iff[of x 2 k] assms by (simp add: a b)
qed

lemma quantum_eqI:
  assumes "2 powi k \<le> \<bar>x\<bar>" and "\<bar>x\<bar> < 2 powi (k + 1)"
  shows "quantum x = max (k - 52) (- 1074)"
proof -
  have "0 < (2::real) powi k" by simp
  with assms(1) have "0 < \<bar>x\<bar>" by linarith
  from floor_log2_iff[OF this, of k] assms show ?thesis
    by (simp add: quantum_def)
qed

lemma quantum_bound:
  assumes "x \<noteq> 0"
  shows "\<bar>x\<bar> < 2 powi (quantum x + 53)"
proof -
  have pos: "0 < \<bar>x\<bar>" using assms by simp
  have "\<bar>x\<bar> < 2 powi (\<lfloor>log 2 \<bar>x\<bar>\<rfloor> + 1)"
    using floor_log2_iff[OF pos, of "\<lfloor>log 2 \<bar>x\<bar>\<rfloor>"] by simp
  also have "\<dots> \<le> 2 powi (quantum x + 53)"
    by (rule power_int_increasing) (simp_all add: quantum_def)
  finally show ?thesis .
qed

lemma quantum_ge: "- 1074 \<le> quantum x"
  by (simp add: quantum_def)

lemma quantum_le:
  assumes "x \<noteq> 0" and "\<bar>x\<bar> < 2 powi (q + 53)" and "- 1074 \<le> q"
  shows "quantum x \<le> q"
proof -
  have pos: "0 < \<bar>x\<bar>" using assms by simp
  have lo: "2 powi \<lfloor>log 2 \<bar>x\<bar>\<rfloor> \<le> \<bar>x\<bar>"
    using floor_log2_iff[OF pos, of "\<lfloor>log 2 \<bar>x\<bar>\<rfloor>"] by simp
  have "\<lfloor>log 2 \<bar>x\<bar>\<rfloor> < q + 53"
  proof (rule ccontr)
    assume "\<not> \<lfloor>log 2 \<bar>x\<bar>\<rfloor> < q + 53"
    then have "(2::real) powi (q + 53) \<le> 2 powi \<lfloor>log 2 \<bar>x\<bar>\<rfloor>"
      by (intro power_int_increasing) simp_all
    with lo assms(2) show False by linarith
  qed
  with assms(3) show ?thesis by (simp add: quantum_def)
qed

lemma rne_of_int: "rne (of_int k) = k"
  by (simp add: rne_def)

lemma rne_bounds: "\<lfloor>y\<rfloor> \<le> rne y \<and> rne y \<le> \<lfloor>y\<rfloor> + 1"
  by (simp add: rne_def Let_def)

lemma rne_nonneg: "0 \<le> y \<Longrightarrow> 0 \<le> rne y"
  using rne_bounds[of y] by (simp add: order_trans[of 0 "\<lfloor>y\<rfloor>"])

lemma f64_round_on_grid:
  assumes "x = of_int k * 2 powi (quantum x)" and "\<bar>x\<bar> < 2 powi 1024"
  shows "f64_round x = Fin x"
proof (cases "x = 0")
  case True
  then show ?thesis by (simp add: f64_round_def)
next
  case False
  have "x / 2 powi (quantum x) = of_int k"
    using assms(1) by (metis nonzero_mult_div_cancel_right power_int_eq_0_iff zero_neq_numeral)
  then have "of_int (rne (x / 2 powi (quantum x))) * 2 powi (quantum x) = x"
    using assms(1) by (simp add: rne_of_int)
  with False assms(2) show ?thesis
    by (simp add: f64_round_def Let_def)
qed

lemma grid_refine:
  assumes "(x::real) = of_int n * 2 powi q" and "q' \<le> q"
  shows "\<exists>k. x = of_int k * 2 powi q'"
proof -
  have "(2::real) powi q = 2 powi (q - q') * 2 powi q'"
    using power_int_add[of "2::real" "q - q'" q'] by simp
  moreover have "(2::real) powi (q - q') = of_int (2 ^ nat (q - q'))"
    using assms(2) by (simp add: power_int_def)
  ultimately have "x = of_int (n * 2 ^ nat (q - q')) * 2 powi q'"
    using assms(1) by (simp add: mult.assoc)
  then show ?thesis ..
qed

lemma f64_round_coarse:
  assumes "x = of_int n * 2 powi q" and "\<bar>x\<bar> < 2 powi (q + 53)" and "- 1074 \<le> q"
    and "\<bar>x\<bar> < 2 powi 1024"
  shows "f64_round x = Fin x"
proof (cases "x = 0")
  case True
  then show ?thesis by (simp add: f64_round_def)
next
  case False
  have "quantum x \<le> q"
    using quantum_le[OF False assms(2,3)] .
  from grid_refine[OF assms(1) this] obtain k where "x = of_int k * 2 powi (quantum x)" ..
  then show ?thesis using assms(4) by (rule f64_round_on_grid)
qed

lemma f64_round_exact:
  assumes "x = of_int n * 2 powi q" and "\<bar>n\<bar> < 2 ^ 53" and "- 1074 \<le> q"
    and "\<bar>x\<bar> < 2 powi 1024"
  shows "f64_round x = Fin x"
proof -
  have "\<bar>x\<bar> = of_int \<bar>n\<bar> * 2 powi q"
    using assms(1) by (simp add: abs_mult)
  also have "\<dots> < 2 ^ 53 * 2 powi q"
  proof -
    have "(of_int \<bar>n\<bar> :: real) < of_int (2 ^ 53)"
      using assms(2) by (simp only: of_int_less_iff)
    then show ?thesis by (simp add: mult_strict_right_mono)
  qed
  also have "\<dots> = 2 powi (q + 53)"
    using power_int_add[of "2::real" q 53] by simp
  finally show ?thesis
    using f64_round_coarse[OF assms(1) _ assms(3,4)] by simp
qed

text \<open>What rounding returns lies on the grid of its quantum.\<close>

lemma f64_round_FinD:
  assumes "f64_round x = Fin r"
  shows "r = of_int (rne (x / 2 powi quantum x)) * 2 powi quantum x \<and> \<bar>r\<bar> < 2 powi 1024"
proof (cases "x = 0")
  case True
  with assms show ?thesis by (simp add: f64_round_def rne_def)
next
  case False
  with assms show ?thesis
    by (simp add: f64_round_def Let_def split: if_splits)
qed

lemma scaled_bound:
  assumes "x \<noteq> 0"
  shows "\<bar>x / 2 powi quantum x\<bar> < 2 ^ 53"
proof -
  have "\<bar>x\<bar> < 2 powi (quantum x + 53)" by (rule quantum_bound[OF assms])
  also have "\<dots> = 2 powi quantum x * 2 ^ 53"
    using power_int_add[of "2::real" "quantum x" 53] by simp
  finally have "\<bar>x\<bar> / 2 powi quantum x < 2 ^ 53"
    by (simp add: pos_divide_less_eq mult.commute)
  then show ?thesis by (simp add: abs_divide)
qed

lemma rne_scaled_bound:
  assumes "\<bar>y\<bar> < 2 ^ 53"
  shows "\<bar>rne y\<bar> \<le> 2 ^ 53"
proof -
  have "y < 2 ^ 53" "- (2 ^ 53) < y" using assms by linarith+
  then have "\<lfloor>y\<rfloor> < 2 ^ 53" "- (2 ^ 53) \<le> \<lfloor>y\<rfloor>"
    by (simp_all add: floor_less_iff le_floor_iff)
  with rne_bounds[of y] show ?thesis by linarith
qed

text \<open>Rounding twice is rounding once: what \<open>f64_round\<close> returns is a float64.\<close>

lemma is_float64_f64_round: "is_float64 (f64_round x)"
proof (cases "f64_round x")
  case (Fin r)
  note D = f64_round_FinD[OF Fin]
  define n where "n = rne (x / 2 powi quantum x)"
  have r: "r = of_int n * 2 powi quantum x" using D unfolding n_def by blast
  have big: "\<bar>r\<bar> < 2 powi 1024" using D by blast
  have "f64_round r = Fin r"
  proof (cases "x = 0")
    case True
    with Fin show ?thesis by (simp add: f64_round_def)
  next
    case False
    have nb: "\<bar>n\<bar> \<le> 2 ^ 53"
      unfolding n_def by (rule rne_scaled_bound[OF scaled_bound[OF False]])
    show ?thesis
    proof (cases "\<bar>n\<bar> = 2 ^ 53")
      case True
      then have "n = 2 ^ 53 \<or> n = - (2 ^ 53)" by linarith
      then have half: "n = 2 * (n div 2) \<and> \<bar>n div 2\<bar> < 2 ^ 53" by (elim disjE) simp_all
      then have "of_int n = 2 * (of_int (n div 2) :: real)"
        by (metis of_int_mult of_int_numeral)
      then have "r = of_int (n div 2) * 2 powi (quantum x + 1)"
        using r power_int_add[of "2::real" "quantum x" 1] by simp
      moreover have "\<bar>n div 2\<bar> < 2 ^ 53" using half by blast
      moreover have "- 1074 \<le> quantum x + 1" using quantum_ge[of x] by simp
      ultimately show ?thesis using big by (rule f64_round_exact)
    next
      case False
      with nb have "\<bar>n\<bar> < 2 ^ 53" by simp
      with r show ?thesis using quantum_ge big by (rule f64_round_exact)
    qed
  qed
  with Fin show ?thesis by (simp add: is_float64_def)
qed (simp_all add: is_float64_def)

text \<open>Multiplying a float64 by a power of two is exact, short of overflow.\<close>

lemma f64_round_scale:
  assumes "is_float64 (Fin a)" and "0 \<le> j" and "\<bar>a * 2 powi j\<bar> < 2 powi 1024"
  shows "f64_round (a * 2 powi j) = Fin (a * 2 powi j)"
proof (cases "a = 0")
  case True
  then show ?thesis by (simp add: f64_round_def)
next
  case False
  from assms(1) have "f64_round a = Fin a" by (simp add: is_float64_def)
  from f64_round_FinD[OF this] obtain n where a: "a = of_int n * 2 powi quantum a"
    by blast
  have "a * 2 powi j = of_int n * 2 powi (quantum a + j)"
    using a power_int_add[of "2::real" "quantum a" j] by (simp add: mult.assoc)
  moreover have "\<bar>a * 2 powi j\<bar> < 2 powi (quantum a + j + 53)"
  proof -
    have "\<bar>a * 2 powi j\<bar> = \<bar>a\<bar> * 2 powi j" by (simp add: abs_mult)
    also have "\<dots> < 2 powi (quantum a + 53) * 2 powi j"
      using quantum_bound[OF False] by (simp add: mult_strict_right_mono)
    also have "\<dots> = 2 powi (quantum a + 53 + j)"
      using power_int_add[of "2::real" "quantum a + 53" j] by simp
    also have "quantum a + 53 + j = quantum a + j + 53" by simp
    finally show ?thesis .
  qed
  moreover have "- 1074 \<le> quantum a + j" using quantum_ge[of a] assms(2) by simp
  ultimately show ?thesis using assms(3) by (rule f64_round_coarse)
qed

lemma f64_round_nonneg:
  assumes "f64_round x = Fin r" and "0 \<le> x"
  shows "0 \<le> r"
proof -
  have "0 \<le> x / 2 powi quantum x" using assms(2) by simp
  then have "0 \<le> rne (x / 2 powi quantum x)" by (rule rne_nonneg)
  with f64_round_FinD[OF assms(1)] show ?thesis by simp
qed

section \<open>The codec, byte by byte\<close>

lemma length_PutUint16: "length (PutUint16 b v) = length b"
  by (simp add: PutUint16_def)

lemma PutUint16_two: "PutUint16 [x, y] v = [ucast v, ucast (drop_bit 8 v)]"
  by (simp add: PutUint16_def)

lemma calculateSteeringAngleBytes_bytes:
  "calculateSteeringAngleBytes P angle =
     (let v = int16_of_float64 P (f64_div
                (if f64_less (Fin 90) (f64_abs angle)
                 then (if Signbit angle then Fin (- 90) else Fin 90) else angle)
                (Fin 0.0078125))
      in [ucast v, ucast (drop_bit 8 v)])"
  by (simp add: calculateSteeringAngleBytes_def Let_def PutUint16_def numeral_2_eq_2)

lemma calculateAccelAndBrakeBytes_bytes:
  "calculateAccelAndBrakeBytes P accelPct =
     (if f64_eq accelPct (Fin 0) then [0, 0, 0x40, 0x06]
      else let v = uint16_of_float64 P
                     (f64_div (f64_div (f64_abs accelPct) (Fin 5)) (Fin 0.0625))
           in [ucast v, ucast (drop_bit 8 v), 0, 0])"
  by (simp add: calculateAccelAndBrakeBytes_def Let_def PutUint16_def numeral_2_eq_2
      numeral_Bit0 [of "Num.Bit0 Num.One", where 'a = nat])

lemma length_calculateSteeringAngleBytes: "length (calculateSteeringAngleBytes P angle) = 2"
  by (simp add: calculateSteeringAngleBytes_bytes Let_def)

lemma length_calculateAccelAndBrakeBytes: "length (calculateAccelAndBrakeBytes P accelPct) = 4"
  by (simp add: calculateAccelAndBrakeBytes_bytes Let_def)

lemma index_gears [simp]:
  "index gears gearPark = 0" "index gears gearReverse = 1" "index gears gearNeutral = 2"
  "index gears gearDrive = 3" "index gears gearEmergencyStop = 4"
  by (simp_all add: index_def gears_def gearPark_def gearReverse_def gearNeutral_def
      gearDrive_def gearEmergencyStop_def)

lemma index_steerModes [simp]:
  "index steerModes steerModeFrontWheelDrive = 0" "index steerModes steerModeRearWheelDrive = 1"
  "index steerModes steerModeFourWheelDrive = 2" "index steerModes steerModeCrabSteering = 3"
  by (simp_all add: index_def steerModes_def steerModeFrontWheelDrive_def
      steerModeRearWheelDrive_def steerModeFourWheelDrive_def steerModeCrabSteering_def)

lemma toFrame_eq:
  "toFrame P cmd =
     (\<lparr>ID = 0x220,
       Data = calculateAccelAndBrakeBytes P (Accelerator cmd)
              @ calculateSteeringAngleBytes P (SteeringAngle cmd)
              @ [if f64_less (Accelerator cmd) (Fin 0) then 1 else Gear cmd, SteerMode cmd],
       Kind = SFF\<rparr>,
      if f64_less (Accelerator cmd) (Fin 0) then cmd\<lparr>Gear := 1\<rparr> else cmd)"
  by (simp add: toFrame_def Let_def driveId_def)

lemma trunc_nonneg: "0 \<le> z \<Longrightarrow> trunc z = \<lfloor>z\<rfloor>"
  by (simp add: trunc_def)

lemma trunc_close: "\<bar>of_int (trunc z) - z\<bar> < 1"
  by (simp add: trunc_def) linarith

lemma trunc_abs_le:
  assumes "\<bar>z\<bar> \<le> of_int B"
  shows "\<bar>trunc z\<bar> \<le> B"
proof -
  have "z \<le> of_int B" "of_int (- B) \<le> z" using assms by simp_all
  then have "\<lfloor>z\<rfloor> \<le> B" "- B \<le> \<lceil>z\<rceil>"
    by (simp_all add: floor_le_iff le_ceiling_iff)
  moreover have "\<lfloor>z\<rfloor> \<le> \<lceil>z\<rceil>" by (rule floor_le_ceiling)
  ultimately show ?thesis by (simp add: trunc_def)
qed

lemma Uint16_bytes: "Uint16 (ucast v # ucast (drop_bit 8 v) # bs) = v"
  for v :: "16 word"
  unfolding Uint16_def
  by (rule bit_word_eqI) (auto simp add: bit_simps)

lemma sint_int16: "- 32768 \<le> k \<Longrightarrow> k \<le> 32767 \<Longrightarrow> sint (word_of_int k :: 16 word) = k"
  by (simp add: sint_sbintrunc' signed_take_bit_int_eq_self)

lemma uint_uint16: "0 \<le> k \<Longrightarrow> k \<le> 65535 \<Longrightarrow> uint (word_of_int k :: 16 word) = k"
  by (simp add: uint_word_of_int take_bit_int_eq_self)

lemma f64_div_steering:
  assumes "is_float64 (Fin a)" and "\<bar>a\<bar> \<le> 90"
  shows "f64_div (Fin a) (Fin 0.0078125) = Fin (a / 0.0078125)"
proof -
  have eq: "a / 0.0078125 = a * 2 powi 7" by simp
  have "\<bar>a * 2 powi 7\<bar> \<le> 11520" using assms(2) by (simp add: abs_mult)
  also have "(11520::real) < 2 powi 1024" by simp
  finally have "f64_round (a * 2 powi 7) = Fin (a * 2 powi 7)"
    using f64_round_scale[OF assms(1), of 7] by simp
  then show ?thesis by (simp only: f64_div.simps eq) simp
qed

lemma steering_in_range:
  assumes "is_float64 (Fin a)" and "\<bar>a\<bar> \<le> 90"
  shows "calculateSteeringAngleBytes P (Fin a) =
     (let v = (word_of_int (trunc (a / 0.0078125)) :: 16 word)
      in [ucast v, ucast (drop_bit 8 v)])"
    and "- 32768 \<le> trunc (a / 0.0078125) \<and> trunc (a / 0.0078125) \<le> 32767"
proof -
  have "\<bar>a / 0.0078125\<bar> \<le> of_int 11520" using assms(2) by (simp add: abs_mult)
  then have "\<bar>trunc (a / 0.0078125)\<bar> \<le> 11520" by (rule trunc_abs_le)
  then show r: "- 32768 \<le> trunc (a / 0.0078125) \<and> trunc (a / 0.0078125) \<le> 32767"
    by linarith
  have n: "\<not> f64_less (Fin 90) (f64_abs (Fin a))" using assms(2) by simp
  have "int16_of_float64 P (f64_div (Fin a) (Fin 0.0078125)) =
      word_of_int (trunc (a / 0.0078125))"
    using r by (simp only: f64_div_steering[OF assms] int16_of_float64_def float64.case simp_thms if_True)
  then show "calculateSteeringAngleBytes P (Fin a) =
     (let v = (word_of_int (trunc (a / 0.0078125)) :: 16 word)
      in [ucast v, ucast (drop_bit 8 v)])"
    using n by (simp only: calculateSteeringAngleBytes_bytes if_False)
qed

lemma f64_round_90: "f64_round 11520 = Fin 11520" "f64_round (- 11520) = Fin (- 11520)"
  using f64_round_exact[of 11520 11520 0] f64_round_exact[of "- 11520" "- 11520" 0]
  by simp_all

lemma steering_bound_bytes:
  "calculateSteeringAngleBytes P (Fin 90) = [0x00, 0x2D]"
  "calculateSteeringAngleBytes P (Fin (- 90)) = [0x00, 0xD3]"
  by (simp_all add: calculateSteeringAngleBytes_bytes f64_round_90 int16_of_float64_def
      trunc_def Let_def)

lemma steering_saturates:
  assumes "f64_less (Fin 90) (f64_abs x)"
  shows "calculateSteeringAngleBytes P x =
     calculateSteeringAngleBytes P (if Signbit x then Fin (- 90) else Fin 90)"
  using assms by (cases x) (simp_all add: calculateSteeringAngleBytes_def Let_def)

section \<open>The steering angle\<close>

text \<open>
  C1. For every float64 angle \<open>a\<close> with \<open>\<bar>a\<bar> \<le> 90\<close>, \<^verbatim>\<open>calculateSteeringAngleBytes\<close> emits
  the little-endian bytes of the signed 16-bit integer obtained from \<open>a / 0.0078125\<close> by
  discarding its fraction (truncation towards zero, as Go's \<^verbatim>\<open>int16(...)\<close> converts; the
  division itself is exact), so decoding recovers \<open>a\<close> within one step of 1/128 degree. For
  every angle beyond the bounds, infinities included, the result is the encoding of the
  nearest bound, \<open>90\<close> or \<open>- 90\<close> after the sign of the angle.
\<close>

theorem calculateSteeringAngleBytes_truncates:
  "(is_float64 (Fin a) \<and> \<bar>a\<bar> \<le> 90 \<longrightarrow>
      calculateSteeringAngleBytes P (Fin a) =
        (let v = (word_of_int (trunc (a / 0.0078125)) :: 16 word)
         in [ucast v, ucast (drop_bit 8 v)])
      \<and> sint (Uint16 (calculateSteeringAngleBytes P (Fin a))) = trunc (a / 0.0078125)
      \<and> \<bar>of_int (sint (Uint16 (calculateSteeringAngleBytes P (Fin a)))) * 0.0078125 - a\<bar>
          < 0.0078125)
   \<and> (f64_less (Fin 90) (f64_abs x) \<longrightarrow>
      calculateSteeringAngleBytes P x =
        calculateSteeringAngleBytes P (if Signbit x then Fin (- 90) else Fin 90)
      \<and> calculateSteeringAngleBytes P x = (if Signbit x then [0x00, 0xD3] else [0x00, 0x2D]))"
proof (intro conjI impI)
  assume h: "is_float64 (Fin a) \<and> \<bar>a\<bar> \<le> 90"
  then have f: "is_float64 (Fin a)" and b: "\<bar>a\<bar> \<le> 90" by simp_all
  note bytes = steering_in_range(1)[OF f b, of P] and range = steering_in_range(2)[OF f b]
  show "calculateSteeringAngleBytes P (Fin a) =
        (let v = (word_of_int (trunc (a / 0.0078125)) :: 16 word)
         in [ucast v, ucast (drop_bit 8 v)])"
    by (rule bytes)
  show s: "sint (Uint16 (calculateSteeringAngleBytes P (Fin a))) = trunc (a / 0.0078125)"
    using range by (simp only: bytes Let_def Uint16_bytes sint_int16)
  have "\<bar>of_int (trunc (a / 0.0078125)) - a / 0.0078125\<bar> < 1" by (rule trunc_close)
  then have "\<bar>(of_int (trunc (a / 0.0078125)) - a / 0.0078125) * 0.0078125\<bar> < 1 * 0.0078125"
    by (simp only: abs_mult) simp
  then show "\<bar>of_int (sint (Uint16 (calculateSteeringAngleBytes P (Fin a)))) * 0.0078125 - a\<bar>
          < 0.0078125"
    by (simp only: s) (simp add: algebra_simps)
next
  assume h: "f64_less (Fin 90) (f64_abs x)"
  show "calculateSteeringAngleBytes P x =
        calculateSteeringAngleBytes P (if Signbit x then Fin (- 90) else Fin 90)"
    by (rule steering_saturates[OF h])
  then show "calculateSteeringAngleBytes P x = (if Signbit x then [0x00, 0xD3] else [0x00, 0x2D])"
    by (simp add: steering_bound_bytes)
qed

lemma is_float64_example: "is_float64 (Fin (5123 / 512))"
  using f64_round_exact[of "5123 / 512" 5123 "- 9"]
  by (simp add: is_float64_def power_int_minus)

theorem calculateSteeringAngleBytes_truncates_witness:
  "calculateSteeringAngleBytes zero_platform (Fin (5123 / 512)) = [0x00, 0x05]
   \<and> sint (Uint16 (calculateSteeringAngleBytes zero_platform (Fin (5123 / 512)))) = 1280
   \<and> calculateSteeringAngleBytes zero_platform PInf = [0x00, 0x2D]
   \<and> calculateSteeringAngleBytes zero_platform (Fin (- 1000)) = [0x00, 0xD3]"
proof -
  have t: "trunc (5123 / 512 / 0.0078125) = 1280" by (simp add: trunc_def)
  have pre: "is_float64 (Fin (5123 / 512)) \<and> \<bar>5123 / 512\<bar> \<le> (90::real)"
    using is_float64_example by simp
  note T = calculateSteeringAngleBytes_truncates[of "5123 / 512" zero_platform PInf]
  from T pre have "calculateSteeringAngleBytes zero_platform (Fin (5123 / 512)) =
      (let v = (word_of_int (trunc (5123 / 512 / 0.0078125)) :: 16 word)
       in [ucast v, ucast (drop_bit 8 v)])"
    by blast
  then have a: "calculateSteeringAngleBytes zero_platform (Fin (5123 / 512)) = [0x00, 0x05]"
    by (simp only: t Let_def) simp
  from T pre have "sint (Uint16 (calculateSteeringAngleBytes zero_platform (Fin (5123 / 512)))) =
      trunc (5123 / 512 / 0.0078125)"
    by blast
  then have b: "sint (Uint16 (calculateSteeringAngleBytes zero_platform (Fin (5123 / 512)))) = 1280"
    by (simp only: t)
  from T have "f64_less (Fin 90) (f64_abs PInf) \<longrightarrow>
      calculateSteeringAngleBytes zero_platform PInf =
        (if Signbit PInf then [0x00, 0xD3] else [0x00, 0x2D])"
    by blast
  then have c: "calculateSteeringAngleBytes zero_platform PInf = [0x00, 0x2D]"
    by simp
  from calculateSteeringAngleBytes_truncates[of 0 zero_platform "Fin (- 1000)"]
  have "f64_less (Fin 90) (f64_abs (Fin (- 1000))) \<longrightarrow>
      calculateSteeringAngleBytes zero_platform (Fin (- 1000)) =
        (if Signbit (Fin (- 1000)) then [0x00, 0xD3] else [0x00, 0x2D])"
    by blast
  then have d: "calculateSteeringAngleBytes zero_platform (Fin (- 1000)) = [0x00, 0xD3]"
    by simp
  from a b c d show ?thesis by (intro conjI)
qed

text \<open>
  The angle 10.005859375 is 1280.75 steps: the code emits 1280, rounding would give 1281.
\<close>

theorem calculateSteeringAngleBytes_round_counterexample:
  "is_float64 (Fin (5123 / 512))
   \<and> calculateSteeringAngleBytes zero_platform (Fin (5123 / 512)) = [0x00, 0x05]
   \<and> spec_encodeSteeringAngle (5123 / 512) = [0x01, 0x05]"
proof -
  have t: "trunc (5123 / 512 / 0.0078125) = 1280" by (simp add: trunc_def)
  have "calculateSteeringAngleBytes zero_platform (Fin (5123 / 512)) = [0x00, 0x05]"
    using steering_in_range(1)[OF is_float64_example, of zero_platform]
    by (simp only: t Let_def) simp
  moreover have "spec_encodeSteeringAngle (5123 / 512) = [0x01, 0x05]"
    by (simp add: spec_encodeSteeringAngle_def round_def)
  ultimately show ?thesis using is_float64_example by simp
qed

lemma f64_div_accel:
  assumes "f64_div (Fin \<bar>a\<bar>) (Fin 5) = Fin q" and "q / 0.0625 < 65536"
  shows "f64_div (Fin q) (Fin 0.0625) = Fin (q / 0.0625)" and "0 \<le> q"
proof -
  have r: "f64_round (\<bar>a\<bar> / 5) = Fin q" using assms(1) by simp
  show nonneg: "0 \<le> q" by (rule f64_round_nonneg[OF r]) simp
  have fl: "is_float64 (Fin q)" using is_float64_f64_round[of "\<bar>a\<bar> / 5"] by (simp only: r)
  have eq: "q / 0.0625 = q * 2 powi 4" by simp
  have "\<bar>q * 2 powi 4\<bar> < 65536" using assms(2) nonneg by (simp add: abs_mult)
  also have "(65536::real) < 2 powi 1024" by simp
  finally have "f64_round (q * 2 powi 4) = Fin (q * 2 powi 4)"
    using f64_round_scale[OF fl, of 4] by simp
  then show "f64_div (Fin q) (Fin 0.0625) = Fin (q / 0.0625)"
    by (simp only: f64_div.simps eq) simp
qed

lemma accel_zero: "calculateAccelAndBrakeBytes P (Fin 0) = [0, 0, 0x40, 0x06]"
  by (simp add: calculateAccelAndBrakeBytes_def f64_eq_def)

lemma accel_nonzero:
  assumes "\<not> f64_eq x (Fin 0)"
  shows "calculateAccelAndBrakeBytes P x =
     (let v = uint16_of_float64 P (f64_div (f64_div (f64_abs x) (Fin 5)) (Fin 0.0625))
      in [ucast v, ucast (drop_bit 8 v), 0, 0])"
  using assms by (simp only: calculateAccelAndBrakeBytes_bytes if_False)

lemma accel_in_range:
  assumes "a \<noteq> 0" and "f64_div (Fin \<bar>a\<bar>) (Fin 5) = Fin q" and "q / 0.0625 < 65536"
  shows "calculateAccelAndBrakeBytes P (Fin a) =
     (let v = (word_of_int \<lfloor>q / 0.0625\<rfloor> :: 16 word) in [ucast v, ucast (drop_bit 8 v), 0, 0])"
    and "0 \<le> \<lfloor>q / 0.0625\<rfloor> \<and> \<lfloor>q / 0.0625\<rfloor> \<le> 65535"
proof -
  note d = f64_div_accel[OF assms(2,3)]
  have nn: "0 \<le> q / 0.0625" using d(2) by simp
  then have t: "trunc (q / 0.0625) = \<lfloor>q / 0.0625\<rfloor>" by (rule trunc_nonneg)
  have "\<lfloor>q / 0.0625\<rfloor> < 65536" using assms(3) by (simp only: floor_less_iff)
  moreover have "0 \<le> \<lfloor>q / 0.0625\<rfloor>" using nn by (simp only: zero_le_floor)
  ultimately show r: "0 \<le> \<lfloor>q / 0.0625\<rfloor> \<and> \<lfloor>q / 0.0625\<rfloor> \<le> 65535" by simp
  have ne: "\<not> f64_eq (Fin a) (Fin 0)" using assms(1) by (simp add: f64_eq_def)
  have "uint16_of_float64 P (f64_div (f64_div (f64_abs (Fin a)) (Fin 5)) (Fin 0.0625)) =
      word_of_int \<lfloor>q / 0.0625\<rfloor>"
    using r by (simp only: f64_abs.simps assms(2) d(1) uint16_of_float64_def float64.case t
        simp_thms if_True)
  then show "calculateAccelAndBrakeBytes P (Fin a) =
     (let v = (word_of_int \<lfloor>q / 0.0625\<rfloor> :: 16 word) in [ucast v, ucast (drop_bit 8 v), 0, 0])"
    by (simp only: accel_nonzero[OF ne])
qed

section \<open>The accelerator\<close>

text \<open>
  C2. \<^verbatim>\<open>calculateAccelAndBrakeBytes\<close> at 0 is exactly the pattern \<open>00 00 40 06\<close>. At any
  other value the result has four bytes, the last two are zero, and the first two hold,
  little-endian, the conversion to \<^verbatim>\<open>uint16\<close> of \<open>\<bar>accelPct\<bar>\<close> divided by 5 and then by
  0.0625 in float64. With \<open>q\<close> the float64 quotient of \<open>\<bar>accelPct\<bar>\<close> by 5, and
  \<open>q / 0.0625\<close> below 65536, that 16-bit integer is \<open>q / 0.0625\<close> with its fraction
  discarded (the second division is exact).
\<close>

theorem calculateAccelAndBrakeBytes_truncates:
  "calculateAccelAndBrakeBytes P (Fin 0) = [0x00, 0x00, 0x40, 0x06]
   \<and> (\<not> f64_eq x (Fin 0) \<longrightarrow>
        length (calculateAccelAndBrakeBytes P x) = 4
        \<and> drop 2 (calculateAccelAndBrakeBytes P x) = [0, 0]
        \<and> Uint16 (take 2 (calculateAccelAndBrakeBytes P x)) =
            uint16_of_float64 P (f64_div (f64_div (f64_abs x) (Fin 5)) (Fin 0.0625)))
   \<and> (a \<noteq> 0 \<and> f64_div (Fin \<bar>a\<bar>) (Fin 5) = Fin q \<and> q / 0.0625 < 65536 \<longrightarrow>
        calculateAccelAndBrakeBytes P (Fin a) =
          (let v = (word_of_int \<lfloor>q / 0.0625\<rfloor> :: 16 word)
           in [ucast v, ucast (drop_bit 8 v), 0, 0])
        \<and> uint (Uint16 (take 2 (calculateAccelAndBrakeBytes P (Fin a)))) = \<lfloor>q / 0.0625\<rfloor>)"
proof (intro conjI impI)
  show "calculateAccelAndBrakeBytes P (Fin 0) = [0x00, 0x00, 0x40, 0x06]"
    by (rule accel_zero)
next
  assume ne: "\<not> f64_eq x (Fin 0)"
  show "length (calculateAccelAndBrakeBytes P x) = 4"
    by (rule length_calculateAccelAndBrakeBytes)
  show "drop 2 (calculateAccelAndBrakeBytes P x) = [0, 0]"
    by (simp add: accel_nonzero[OF ne] Let_def)
  show "Uint16 (take 2 (calculateAccelAndBrakeBytes P x)) =
      uint16_of_float64 P (f64_div (f64_div (f64_abs x) (Fin 5)) (Fin 0.0625))"
    by (simp add: accel_nonzero[OF ne] Let_def Uint16_bytes)
next
  assume h: "a \<noteq> 0 \<and> f64_div (Fin \<bar>a\<bar>) (Fin 5) = Fin q \<and> q / 0.0625 < 65536"
  then have h1: "a \<noteq> 0" and h2: "f64_div (Fin \<bar>a\<bar>) (Fin 5) = Fin q"
    and h3: "q / 0.0625 < 65536" by blast+
  note bytes = accel_in_range(1)[OF h1 h2 h3, of P] and range = accel_in_range(2)[OF h1 h2 h3]
  show "calculateAccelAndBrakeBytes P (Fin a) =
      (let v = (word_of_int \<lfloor>q / 0.0625\<rfloor> :: 16 word)
       in [ucast v, ucast (drop_bit 8 v), 0, 0])"
    by (rule bytes)
  have "take 2 (calculateAccelAndBrakeBytes P (Fin a)) =
      (let v = (word_of_int \<lfloor>q / 0.0625\<rfloor> :: 16 word) in [ucast v, ucast (drop_bit 8 v)])"
    by (simp only: bytes Let_def) simp
  then show "uint (Uint16 (take 2 (calculateAccelAndBrakeBytes P (Fin a)))) = \<lfloor>q / 0.0625\<rfloor>"
    using range by (simp only: Let_def Uint16_bytes uint_uint16)
qed

lemma f64_round_10: "f64_round 10 = Fin 10"
  using f64_round_exact[of 10 10 0] by simp

theorem calculateAccelAndBrakeBytes_truncates_witness:
  "calculateAccelAndBrakeBytes zero_platform (Fin 50) = [0xA0, 0x00, 0x00, 0x00]
   \<and> uint (Uint16 (take 2 (calculateAccelAndBrakeBytes zero_platform (Fin 50)))) = 160
   \<and> drop 2 (calculateAccelAndBrakeBytes zero_platform (Fin (- 50))) = [0x00, 0x00]"
proof -
  have fl: "\<lfloor>10 / 0.0625 :: real\<rfloor> = 160" by simp
  have pre: "(50::real) \<noteq> 0 \<and> f64_div (Fin \<bar>50\<bar>) (Fin 5) = Fin 10
      \<and> (10::real) / 0.0625 < 65536"
    by (simp add: f64_round_10)
  note T = calculateAccelAndBrakeBytes_truncates[of zero_platform "Fin (- 50)" 50 10]
  from T pre have "calculateAccelAndBrakeBytes zero_platform (Fin 50) =
      (let v = (word_of_int \<lfloor>10 / 0.0625 :: real\<rfloor> :: 16 word)
       in [ucast v, ucast (drop_bit 8 v), 0, 0])"
    by blast
  then have a: "calculateAccelAndBrakeBytes zero_platform (Fin 50) = [0xA0, 0x00, 0x00, 0x00]"
    by (simp only: fl Let_def) simp
  from T pre have "uint (Uint16 (take 2 (calculateAccelAndBrakeBytes zero_platform (Fin 50)))) =
      \<lfloor>10 / 0.0625 :: real\<rfloor>"
    by blast
  then have b: "uint (Uint16 (take 2 (calculateAccelAndBrakeBytes zero_platform (Fin 50)))) = 160"
    by (simp only: fl)
  have "\<not> f64_eq (Fin (- 50)) (Fin 0)" by (simp add: f64_eq_def)
  with T have c: "drop 2 (calculateAccelAndBrakeBytes zero_platform (Fin (- 50))) = [0x00, 0x00]"
    by blast
  from a b c show ?thesis by (intro conjI)
qed

lemma quantum_three_fifths: "quantum (3 / 5) = - 53"
  using quantum_eqI[of "- 1" "3 / 5"] by (simp add: power_int_minus)

lemma f64_round_three_fifths: "f64_round (3 / 5) = Fin (5404319552844595 / 2 ^ 53)"
  by (simp add: f64_round_def quantum_three_fifths rne_def Let_def power_int_minus)

lemma f64_round_three_fifths_scaled:
  "f64_round (5404319552844595 / 2 ^ 53 / 0.0625) = Fin (5404319552844595 / 2 ^ 49)"
  using f64_round_exact[of "5404319552844595 / 2 ^ 49" 5404319552844595 "- 49"]
  by (simp add: power_int_minus)

text \<open>
  At 3 percent the quotient by 5 and by 0.0625 is about 9.6: the code emits 9, rounding
  would give 10.
\<close>

theorem calculateAccelAndBrakeBytes_round_counterexample:
  "calculateAccelAndBrakeBytes zero_platform (Fin 3) = [0x09, 0x00, 0x00, 0x00]
   \<and> spec_encodeAcceleration 3 = [0x0A, 0x00, 0x00, 0x00]"
proof -
  have "trunc (5404319552844595 / 2 ^ 49) = 9" by (simp add: trunc_def)
  then have "calculateAccelAndBrakeBytes zero_platform (Fin 3) = [0x09, 0x00, 0x00, 0x00]"
    using f64_round_three_fifths f64_round_three_fifths_scaled
    by (simp add: calculateAccelAndBrakeBytes_bytes f64_eq_def uint16_of_float64_def Let_def)
  moreover have "spec_encodeAcceleration 3 = [0x0A, 0x00, 0x00, 0x00]"
    by (simp add: spec_encodeAcceleration_def round_def)
  ultimately show ?thesis by simp
qed

section \<open>The frame and its gear byte\<close>

text \<open>
  C3. The payload of the frame of any command is exactly 8 bytes: the 4 bytes of
  \<^verbatim>\<open>calculateAccelAndBrakeBytes\<close>, the 2 bytes of \<^verbatim>\<open>calculateSteeringAngleBytes\<close>, the
  gear byte and the steer-mode byte. The gear byte is the Reverse code when the accelerator
  is below 0 and the caller's gear otherwise; so it equals the Reverse code exactly when
  the accelerator is below 0 or the caller's own gear is Reverse.
\<close>

theorem toFrame_gear_and_length:
  "length (Data (fst (toFrame P cmd))) = 8
   \<and> take 4 (Data (fst (toFrame P cmd))) = calculateAccelAndBrakeBytes P (Accelerator cmd)
   \<and> take 2 (drop 4 (Data (fst (toFrame P cmd)))) =
       calculateSteeringAngleBytes P (SteeringAngle cmd)
   \<and> Data (fst (toFrame P cmd)) ! 6 =
       (if f64_less (Accelerator cmd) (Fin 0) then index gears gearReverse else Gear cmd)
   \<and> Data (fst (toFrame P cmd)) ! 7 = SteerMode cmd
   \<and> (Data (fst (toFrame P cmd)) ! 6 = index gears gearReverse \<longleftrightarrow>
        f64_less (Accelerator cmd) (Fin 0) \<or> Gear cmd = index gears gearReverse)
   \<and> ID (fst (toFrame P cmd)) = driveId \<and> Kind (fst (toFrame P cmd)) = SFF"
  by (simp add: toFrame_eq nth_append length_calculateAccelAndBrakeBytes
      length_calculateSteeringAngleBytes driveId_def)

theorem toFrame_gear_and_length_witness:
  "Data (fst (toFrame zero_platform
      \<lparr>Accelerator = Fin (- 50), Brake = Fin 0, SteeringAngle = Fin 0, Gear = 3, SteerMode = 2\<rparr>)) ! 6
     = 1
   \<and> Data (fst (toFrame zero_platform
      \<lparr>Accelerator = Fin 50, Brake = Fin 0, SteeringAngle = Fin 0, Gear = 3, SteerMode = 2\<rparr>)) ! 6
     = 3"
  using toFrame_gear_and_length [of zero_platform
      "\<lparr>Accelerator = Fin (- 50), Brake = Fin 0, SteeringAngle = Fin 0, Gear = 3, SteerMode = 2\<rparr>"]
    toFrame_gear_and_length [of zero_platform
      "\<lparr>Accelerator = Fin 50, Brake = Fin 0, SteeringAngle = Fin 0, Gear = 3, SteerMode = 2\<rparr>"]
  by simp

text \<open>
  A command with accelerator 10 that asks for Reverse itself: the gear byte is the Reverse
  code although the accelerator is not below 0.
\<close>

theorem toFrame_reverse_gear_counterexample:
  "Data (fst (toFrame zero_platform
      \<lparr>Accelerator = Fin 10, Brake = Fin 0, SteeringAngle = Fin 0, Gear = 1, SteerMode = 2\<rparr>)) ! 6
     = index gears gearReverse
   \<and> \<not> f64_less
       (Accelerator \<lparr>Accelerator = Fin 10, Brake = Fin 0, SteeringAngle = Fin 0, Gear = 1,
          SteerMode = 2\<rparr>) (Fin 0)"
  by (simp add: toFrame_eq nth_append length_calculateAccelAndBrakeBytes
      length_calculateSteeringAngleBytes)

text \<open>
  C4. \<^verbatim>\<open>toFrame\<close> writes to the command it is called on: when the accelerator is below 0
  it sets the command's gear to Reverse, and the caller sees that after the call. It
  changes nothing else: accelerator, brake, steering angle and steer mode keep their
  values, and a command whose accelerator is not below 0 is left as it was. The gear byte
  of the frame is the gear of the command after the call.
\<close>

theorem toFrame_writes_gear:
  "snd (toFrame P cmd) =
     (if f64_less (Accelerator cmd) (Fin 0) then cmd\<lparr>Gear := index gears gearReverse\<rparr> else cmd)
   \<and> Accelerator (snd (toFrame P cmd)) = Accelerator cmd
   \<and> Brake (snd (toFrame P cmd)) = Brake cmd
   \<and> SteeringAngle (snd (toFrame P cmd)) = SteeringAngle cmd
   \<and> SteerMode (snd (toFrame P cmd)) = SteerMode cmd
   \<and> Gear (snd (toFrame P cmd)) = Data (fst (toFrame P cmd)) ! 6"
  by (simp add: toFrame_eq nth_append length_calculateAccelAndBrakeBytes
      length_calculateSteeringAngleBytes)

theorem toFrame_writes_gear_witness:
  "snd (toFrame zero_platform
      \<lparr>Accelerator = Fin (- 50), Brake = Fin 0, SteeringAngle = Fin 0, Gear = 3, SteerMode = 2\<rparr>)
     = \<lparr>Accelerator = Fin (- 50), Brake = Fin 0, SteeringAngle = Fin 0, Gear = 1, SteerMode = 2\<rparr>
   \<and> snd (toFrame zero_platform
      \<lparr>Accelerator = Fin 50, Brake = Fin 0, SteeringAngle = Fin 0, Gear = 3, SteerMode = 2\<rparr>)
     = \<lparr>Accelerator = Fin 50, Brake = Fin 0, SteeringAngle = Fin 0, Gear = 3, SteerMode = 2\<rparr>"
  using toFrame_writes_gear [of zero_platform
      "\<lparr>Accelerator = Fin (- 50), Brake = Fin 0, SteeringAngle = Fin 0, Gear = 3, SteerMode = 2\<rparr>"]
    toFrame_writes_gear [of zero_platform
      "\<lparr>Accelerator = Fin 50, Brake = Fin 0, SteeringAngle = Fin 0, Gear = 3, SteerMode = 2\<rparr>"]
  by simp

text \<open>
  The command \<^verbatim>\<open>MoveStraight\<close> builds for a negative distance: gear Drive before the call,
  Reverse after it.
\<close>

theorem toFrame_keeps_command_counterexample:
  "Gear (snd (toFrame zero_platform
      \<lparr>Accelerator = Fin (- 50), Brake = Fin 0, SteeringAngle = Fin 0, Gear = 3, SteerMode = 2\<rparr>))
     \<noteq> Gear \<lparr>Accelerator = Fin (- 50), Brake = Fin 0, SteeringAngle = Fin 0, Gear = 3,
          SteerMode = 2\<rparr>"
  by (simp add: toFrame_eq)

section \<open>Runs of the driver\<close>

lemma steering_zero: "calculateSteeringAngleBytes P (Fin 0) = [0x00, 0x00]"
  by (simp add: calculateSteeringAngleBytes_bytes int16_of_float64_def trunc_def f64_round_def)

lemma toFrame_stopCmd:
  "toFrame P stopCmd =
     (\<lparr>ID = 0x220, Data = [0x00, 0x00, 0x40, 0x06, 0x00, 0x00, 0x00, 0x02], Kind = SFF\<rparr>, stopCmd)"
  by (simp add: toFrame_eq stopCmd_def accel_zero steering_zero)


text \<open>Once the driver's context is cancelled it stays cancelled.\<close>

lemma step_cancelCtx:
  assumes "step P a s = Some s'" and "cancelCtx s \<noteq> None"
  shows "cancelCtx s' \<noteq> None"
  using assms
  by (cases a) (auto split: if_splits option.splits sum.splits call_pc.splits loop_pc.splits)

text \<open>
  After the loop has taken the case \<^verbatim>\<open><-ctx.Done()\<close> of its \<^verbatim>\<open>select\<close>: it stands before
  \<^verbatim>\<open>socket.Send\<close> with nothing sent yet, or it has sent its frame once and stands at the
  check or has returned.
\<close>

lemma step_after_done:
  assumes "step P a s = Some s'" and "cancelCtx s \<noteq> None"
    and "(loop_pc s = AtSend \<and> wire s = w \<and> loop_frame s = f)
       \<or> ((loop_pc s = AtCheck \<or> loop_pc s = Exited) \<and> wire s = w @ [f])"
  shows "(loop_pc s' = AtSend \<and> wire s' = w \<and> loop_frame s' = f)
       \<or> ((loop_pc s' = AtCheck \<or> loop_pc s' = Exited) \<and> wire s' = w @ [f])"
  using assms
  by (cases a) (auto split: if_splits option.splits sum.splits call_pc.splits loop_pc.splits)

lemma run_after_done:
  assumes "run P as s = Some s'" and "cancelCtx s \<noteq> None"
    and "(loop_pc s = AtSend \<and> wire s = w \<and> loop_frame s = f)
       \<or> ((loop_pc s = AtCheck \<or> loop_pc s = Exited) \<and> wire s = w @ [f])"
  shows "(loop_pc s' = AtSend \<and> wire s' = w \<and> loop_frame s' = f)
       \<or> ((loop_pc s' = AtCheck \<or> loop_pc s' = Exited) \<and> wire s' = w @ [f])"
  using assms
proof (induction as arbitrary: s)
  case Nil
  then show ?case by simp
next
  case (Cons a as)
  from Cons.prems(1) obtain s1 where s1: "step P a s = Some s1" and r: "run P as s1 = Some s'"
    by (auto split: option.splits)
  show ?case
    using Cons.IH[OF r step_cancelCtx[OF s1 Cons.prems(2)] step_after_done[OF s1 Cons.prems(2,3)]] .
qed

text \<open>Once the loop has returned nothing is sent any more.\<close>

lemma step_exited:
  assumes "step P a s = Some s'" and "loop_pc s = Exited"
  shows "loop_pc s' = Exited \<and> wire s' = wire s \<and> loop_frame s' = loop_frame s"
  using assms
  by (cases a) (auto split: if_splits option.splits sum.splits call_pc.splits loop_pc.splits)

lemma run_exited:
  assumes "run P as s = Some s'" and "loop_pc s = Exited"
  shows "loop_pc s' = Exited \<and> wire s' = wire s \<and> loop_frame s' = loop_frame s"
  using assms
proof (induction as arbitrary: s)
  case Nil
  then show ?case by simp
next
  case (Cons a as)
  from Cons.prems(1) obtain s1 where s1: "step P a s = Some s1" and r: "run P as s1 = Some s'"
    by (auto split: option.splits)
  from step_exited[OF s1 Cons.prems(2)] Cons.IH[OF r] show ?case by simp
qed

section \<open>Cancelling the publish loop\<close>

text \<open>
  C5. The loop returns without sending when it finds its context cancelled at the check
  that opens an iteration. When it observes the cancellation in its wait step instead (the
  case \<^verbatim>\<open><-ctx.Done()\<close> of the \<^verbatim>\<open>select\<close>), it still hands its current frame to
  \<^verbatim>\<open>socket.Send\<close> once, and returns at the next check; whatever the other tasks do, that one
  frame is all it sends from then on.
\<close>

theorem publishThread_sends_once_after_done:
  "(loop_pc s = AtSelect \<and> cancelCtx s \<noteq> None \<longrightarrow>
      (\<exists>s3. run P [RecvDone, Send, Check] s = Some s3 \<and> loop_pc s3 = Exited
         \<and> wire s3 = wire s @ [loop_frame s])
      \<and> (\<forall>as s'. run P (RecvDone # as) s = Some s' \<longrightarrow>
           (loop_pc s' = AtSend \<and> wire s' = wire s)
           \<or> ((loop_pc s' = AtCheck \<or> loop_pc s' = Exited) \<and> wire s' = wire s @ [loop_frame s])))
   \<and> (loop_pc t = AtCheck \<and> cancelCtx t \<noteq> None \<longrightarrow>
      (\<forall>as t'. run P (Check # as) t = Some t' \<longrightarrow> loop_pc t' = Exited \<and> wire t' = wire t))"
proof -
  have A: "\<exists>s3. run P [RecvDone, Send, Check] s = Some s3 \<and> loop_pc s3 = Exited
      \<and> wire s3 = wire s @ [loop_frame s]"
    if "loop_pc s = AtSelect \<and> cancelCtx s \<noteq> None"
    using that by auto
  have B: "(loop_pc s' = AtSend \<and> wire s' = wire s)
       \<or> ((loop_pc s' = AtCheck \<or> loop_pc s' = Exited) \<and> wire s' = wire s @ [loop_frame s])"
    if h: "loop_pc s = AtSelect \<and> cancelCtx s \<noteq> None"
      and r: "run P (RecvDone # as) s = Some s'" for as s'
  proof -
    define s1 where "s1 = s\<lparr>loop_pc := AtSend\<rparr>"
    from h r have r1: "run P as s1 = Some s'" by (simp add: s1_def)
    have "(loop_pc s' = AtSend \<and> wire s' = wire s \<and> loop_frame s' = loop_frame s)
         \<or> ((loop_pc s' = AtCheck \<or> loop_pc s' = Exited) \<and> wire s' = wire s @ [loop_frame s])"
      by (rule run_after_done[OF r1]) (use h in \<open>simp_all add: s1_def\<close>)
    then show ?thesis by blast
  qed
  have C: "loop_pc t' = Exited \<and> wire t' = wire t"
    if h: "loop_pc t = AtCheck \<and> cancelCtx t \<noteq> None"
      and r: "run P (Check # as) t = Some t'" for as t'
  proof -
    define t1 where "t1 = t\<lparr>loop_pc := Exited\<rparr>"
    from h r have r1: "run P as t1 = Some t'" by (simp add: t1_def)
    from run_exited[OF r1] show ?thesis by (simp add: t1_def)
  qed
  from A B C show ?thesis by blast
qed

lemma newBase_simps [simp]:
  "cancelCtx (newBase P c cmd) = None" "loop_pc (newBase P c cmd) = AtCheck"
  "loop_frame (newBase P c cmd) = fst (toFrame P stopCmd)" "wire (newBase P c cmd) = []"
  "caller_ctx (newBase P c cmd) = c" "caller_cmd (newBase P c cmd) = cmd"
  "caller_pc (newBase P c cmd) = Idle"
  by (simp_all add: newBase_def)

text \<open>
  A fresh driver: the loop passes its check, \<^verbatim>\<open>Close\<close> cancels the context, the loop's
  \<^verbatim>\<open>select\<close> takes \<^verbatim>\<open><-ctx.Done()\<close> with nothing sent so far, and the next step sends the
  stop frame.
\<close>

theorem publishThread_no_final_send_counterexample:
  "map_option wire (run zero_platform [Check, Close, RecvDone]
       (newBase zero_platform None stopCmd)) = Some []
   \<and> map_option wire (run zero_platform [Check, Close, RecvDone, Send]
       (newBase zero_platform None stopCmd)) =
     Some [\<lparr>ID = 0x220, Data = [0x00, 0x00, 0x40, 0x06, 0x00, 0x00, 0x00, 0x02], Kind = SFF\<rparr>]"
  by (simp add: toFrame_stopCmd)

theorem publishThread_sends_once_after_done_witness:
  "(\<exists>s3. run zero_platform [RecvDone, Send, Check]
        ((newBase zero_platform None stopCmd)\<lparr>cancelCtx := Some Canceled, loop_pc := AtSelect\<rparr>)
        = Some s3
      \<and> loop_pc s3 = Exited
      \<and> wire s3 = [\<lparr>ID = 0x220, Data = [0x00, 0x00, 0x40, 0x06, 0x00, 0x00, 0x00, 0x02], Kind = SFF\<rparr>])
   \<and> map_option (\<lambda>s. (loop_pc s, wire s))
       (run zero_platform [Check, Close]
         ((newBase zero_platform None stopCmd)\<lparr>cancelCtx := Some Canceled\<rparr>))
     = Some (Exited, [])"
proof -
  define s where
    "s = (newBase zero_platform None stopCmd)\<lparr>cancelCtx := Some Canceled, loop_pc := AtSelect\<rparr>"
  define t where "t = (newBase zero_platform None stopCmd)\<lparr>cancelCtx := Some Canceled\<rparr>"
  define t' where "t' = t\<lparr>loop_pc := Exited\<rparr>"
  note T = publishThread_sends_once_after_done[of s zero_platform t]
  have pre: "loop_pc s = AtSelect \<and> cancelCtx s \<noteq> None" by (simp add: s_def)
  from T pre have "\<exists>s3. run zero_platform [RecvDone, Send, Check] s = Some s3
      \<and> loop_pc s3 = Exited \<and> wire s3 = wire s @ [loop_frame s]"
    by blast
  then have a: "\<exists>s3. run zero_platform [RecvDone, Send, Check] s = Some s3
      \<and> loop_pc s3 = Exited
      \<and> wire s3 = [\<lparr>ID = 0x220, Data = [0x00, 0x00, 0x40, 0x06, 0x00, 0x00, 0x00, 0x02], Kind = SFF\<rparr>]"
    by (simp add: s_def toFrame_stopCmd)
  have pre2: "loop_pc t = AtCheck \<and> cancelCtx t \<noteq> None" by (simp add: t_def)
  have r: "run zero_platform (Check # [Close]) t = Some t'" by (simp add: t_def t'_def)
  from T pre2 have "run zero_platform (Check # [Close]) t = Some t' \<longrightarrow>
      loop_pc t' = Exited \<and> wire t' = wire t"
    by blast
  with r have "loop_pc t' = Exited \<and> wire t' = wire t" by blast
  with r have b: "map_option (\<lambda>s. (loop_pc s, wire s)) (run zero_platform [Check, Close] t)
      = Some (Exited, [])"
    by (simp add: t_def)
  from a b show ?thesis unfolding s_def t_def by (intro conjI)
qed

text \<open>
  A call that waits in its \<^verbatim>\<open>select\<close> leaves it in two ways only: the loop receives its
  frame, or its own context is done.
\<close>

lemma step_pending:
  assumes "step P a s = Some s'" and "caller_pc s = Pending f" and "caller_ctx s = None"
    and "\<forall>e. a \<noteq> CancelCaller e"
  shows "caller_ctx s' = None \<and> (caller_pc s' = Pending f \<or> caller_pc s' = Returned None)"
  using assms
  by (cases a) (auto split: if_splits option.splits sum.splits call_pc.splits loop_pc.splits)

lemma step_returned:
  assumes "step P a s = Some s'" and "caller_pc s = Returned r"
  shows "caller_pc s' = Returned r \<and> caller_cmd s' = caller_cmd s
     \<and> loop_frame s' = loop_frame s
     \<and> (wire s' = wire s \<or> wire s' = wire s @ [loop_frame s])"
  using assms
  by (cases a) (auto split: if_splits option.splits sum.splits call_pc.splits loop_pc.splits)

lemma run_returned:
  assumes "run P as s = Some s'" and "caller_pc s = Returned r"
  shows "caller_pc s' = Returned r \<and> caller_cmd s' = caller_cmd s
     \<and> loop_frame s' = loop_frame s
     \<and> (\<exists>k. wire s' = wire s @ replicate k (loop_frame s))"
  using assms
proof (induction as arbitrary: s)
  case Nil
  then show ?case by simp
next
  case (Cons a as)
  from Cons.prems(1) obtain s1 where s1: "step P a s = Some s1" and r: "run P as s1 = Some s'"
    by (auto split: option.splits)
  note st = step_returned[OF s1 Cons.prems(2)]
  from st have "caller_pc s1 = Returned r" by simp
  note ih = Cons.IH[OF r this]
  from ih obtain k where k: "wire s' = wire s1 @ replicate k (loop_frame s1)" by blast
  from st have "wire s1 = wire s \<or> wire s1 = wire s @ [loop_frame s]" by simp
  then have "\<exists>k'. wire s' = wire s @ replicate k' (loop_frame s)"
  proof
    assume "wire s1 = wire s"
    with k st show ?thesis by auto
  next
    assume "wire s1 = wire s @ [loop_frame s]"
    with k st have "wire s' = wire s @ replicate (Suc k) (loop_frame s)" by simp
    then show ?thesis ..
  qed
  with ih st show ?case by simp
qed

lemma run_pending_no_error:
  assumes "run P as s = Some s'" and "caller_pc s = Pending f" and "caller_ctx s = None"
    and "\<forall>a \<in> set as. \<forall>e. a \<noteq> CancelCaller e"
  shows "caller_pc s' = Pending f \<or> caller_pc s' = Returned None"
  using assms
proof (induction as arbitrary: s)
  case Nil
  then show ?case by simp
next
  case (Cons a as)
  from Cons.prems(1) obtain s1 where s1: "step P a s = Some s1" and r: "run P as s1 = Some s'"
    by (auto split: option.splits)
  from Cons.prems(4) have a: "\<forall>e. a \<noteq> CancelCaller e"
    and rest: "\<forall>a \<in> set as. \<forall>e. a \<noteq> CancelCaller e" by simp_all
  from step_pending[OF s1 Cons.prems(2,3) a]
  have c: "caller_ctx s1 = None" and "caller_pc s1 = Pending f \<or> caller_pc s1 = Returned None"
    by simp_all
  from this(2) show ?case
  proof
    assume "caller_pc s1 = Pending f"
    from Cons.IH[OF r this c rest] show ?thesis .
  next
    assume "caller_pc s1 = Returned None"
    from run_returned[OF r this] show ?thesis by simp
  qed
qed

lemma step_pending_exited:
  assumes "step P a s = Some s'" and "caller_pc s = Pending f" and "caller_ctx s = None"
    and "loop_pc s = Exited" and "\<forall>e. a \<noteq> CancelCaller e"
  shows "caller_pc s' = Pending f \<and> caller_ctx s' = None \<and> loop_pc s' = Exited"
  using assms
  by (cases a) (auto split: if_splits option.splits sum.splits call_pc.splits loop_pc.splits)

lemma run_pending_exited:
  assumes "run P as s = Some s'" and "caller_pc s = Pending f" and "caller_ctx s = None"
    and "loop_pc s = Exited" and "\<forall>a \<in> set as. \<forall>e. a \<noteq> CancelCaller e"
  shows "caller_pc s' = Pending f"
  using assms
proof (induction as arbitrary: s)
  case Nil
  then show ?case by simp
next
  case (Cons a as)
  from Cons.prems(1) obtain s1 where s1: "step P a s = Some s1" and r: "run P as s1 = Some s'"
    by (auto split: option.splits)
  from Cons.prems(5) have a: "\<forall>e. a \<noteq> CancelCaller e"
    and rest: "\<forall>a \<in> set as. \<forall>e. a \<noteq> CancelCaller e" by simp_all
  from step_pending_exited[OF s1 Cons.prems(2,3,4) a]
  have "caller_pc s1 = Pending f" "caller_ctx s1 = None" "loop_pc s1 = Exited" by simp_all
  from Cons.IH[OF r this rest] show ?case .
qed

section \<open>A hand-off that waits while the driver shuts down\<close>

text \<open>
  C6. A caller waiting in \<^verbatim>\<open>setNextCommand\<close> listens to the context it was called with, not
  to the driver's. As long as that context is not cancelled, nothing the driver or the
  loop does makes the call fail: it stays waiting or its frame is received; and once the
  loop has returned (as it does after \<^verbatim>\<open>Close\<close>) it stays waiting. When its own context is
  done, the call can return, with that context's error.
\<close>

theorem setNextCommand_released_by_own_context:
  "(caller_pc s = Pending f \<and> caller_ctx s = None \<longrightarrow>
      (\<forall>as s'. run P as s = Some s' \<and> (\<forall>a \<in> set as. \<forall>e. a \<noteq> CancelCaller e) \<longrightarrow>
          (caller_pc s' = Pending f \<or> caller_pc s' = Returned None)
          \<and> (loop_pc s = Exited \<longrightarrow> caller_pc s' = Pending f)))
   \<and> (caller_pc s = Pending f \<and> caller_ctx s = Some err \<longrightarrow>
      (\<exists>s'. step P CallerDone s = Some s' \<and> caller_pc s' = Returned (Some err)))"
proof (intro conjI impI allI)
  fix as s'
  assume h: "caller_pc s = Pending f \<and> caller_ctx s = None"
    and r: "run P as s = Some s' \<and> (\<forall>a \<in> set as. \<forall>e. a \<noteq> CancelCaller e)"
  from h have h1: "caller_pc s = Pending f" and h2: "caller_ctx s = None" by simp_all
  from r have r1: "run P as s = Some s'"
    and r2: "\<forall>a \<in> set as. \<forall>e. a \<noteq> CancelCaller e" by simp_all
  show "caller_pc s' = Pending f \<or> caller_pc s' = Returned None"
    by (rule run_pending_no_error[OF r1 h1 h2 r2])
next
  fix as s'
  assume h: "caller_pc s = Pending f \<and> caller_ctx s = None"
    and r: "run P as s = Some s' \<and> (\<forall>a \<in> set as. \<forall>e. a \<noteq> CancelCaller e)"
    and e: "loop_pc s = Exited"
  from h have h1: "caller_pc s = Pending f" and h2: "caller_ctx s = None" by simp_all
  from r have r1: "run P as s = Some s'"
    and r2: "\<forall>a \<in> set as. \<forall>e. a \<noteq> CancelCaller e" by simp_all
  show "caller_pc s' = Pending f"
    by (rule run_pending_exited[OF r1 h1 h2 e r2])
next
  assume h: "caller_pc s = Pending f \<and> caller_ctx s = Some err"
  then have "step P CallerDone s = Some (s\<lparr>caller_pc := Returned (Some err)\<rparr>)"
    by simp
  then show "\<exists>s'. step P CallerDone s = Some s' \<and> caller_pc s' = Returned (Some err)"
    by simp
qed

text \<open>
  A caller enters the hand-off of the stop command, \<^verbatim>\<open>Close\<close> cancels the driver and the
  loop returns at its check: the driver is cancelled, the call still waits, and neither of
  the two cases of its \<^verbatim>\<open>select\<close> can be taken.
\<close>

theorem setNextCommand_unblocked_by_close_counterexample:
  "map_option (\<lambda>s. (cancelCtx s, loop_pc s, caller_ctx s, caller_pc s,
        step zero_platform CallerDone s, step zero_platform RecvFrame s))
     (run zero_platform [Enter, Close, Check] (newBase zero_platform None stopCmd)) =
   Some (Some Canceled, Exited, None,
     Pending \<lparr>ID = 0x220, Data = [0x00, 0x00, 0x40, 0x06, 0x00, 0x00, 0x00, 0x02], Kind = SFF\<rparr>,
     None, None)"
  by (simp add: setNextCommand_enter_def toFrame_stopCmd)

theorem setNextCommand_released_by_own_context_witness:
  "map_option caller_pc (run zero_platform [Close, Close]
        ((newBase zero_platform None stopCmd)
          \<lparr>loop_pc := Exited, caller_pc := Pending (fst (toFrame zero_platform stopCmd))\<rparr>))
     = Some (Pending (fst (toFrame zero_platform stopCmd)))
   \<and> map_option caller_pc (step zero_platform CallerDone
        ((newBase zero_platform (Some DeadlineExceeded) stopCmd)
          \<lparr>caller_pc := Pending (fst (toFrame zero_platform stopCmd))\<rparr>))
     = Some (Returned (Some DeadlineExceeded))"
proof -
  define f where "f = fst (toFrame zero_platform stopCmd)"
  define s where "s = (newBase zero_platform None stopCmd)\<lparr>loop_pc := Exited, caller_pc := Pending f\<rparr>"
  define t where "t = (newBase zero_platform (Some DeadlineExceeded) stopCmd)\<lparr>caller_pc := Pending f\<rparr>"
  define s' where "s' = s\<lparr>cancelCtx := Some Canceled\<rparr>"
  have r: "run zero_platform [Close, Close] s = Some s'" by (simp add: s_def s'_def)
  have pre: "caller_pc s = Pending f \<and> caller_ctx s = None" by (simp add: s_def)
  have ex: "loop_pc s = Exited" by (simp add: s_def)
  have sched: "\<forall>a \<in> set [Close, Close]. \<forall>e. a \<noteq> CancelCaller e" by simp
  note T = setNextCommand_released_by_own_context[of s f zero_platform DeadlineExceeded]
  from T pre have "run zero_platform [Close, Close] s = Some s'
      \<and> (\<forall>a \<in> set [Close, Close]. \<forall>e. a \<noteq> CancelCaller e) \<longrightarrow>
      (loop_pc s = Exited \<longrightarrow> caller_pc s' = Pending f)"
    by blast
  with r sched ex have a: "caller_pc s' = Pending f" by blast
  have pre2: "caller_pc t = Pending f \<and> caller_ctx t = Some DeadlineExceeded"
    by (simp add: t_def)
  from setNextCommand_released_by_own_context[of t f zero_platform DeadlineExceeded] pre2
  have b: "\<exists>s'. step zero_platform CallerDone t = Some s'
      \<and> caller_pc s' = Returned (Some DeadlineExceeded)"
    by blast
  from a r have "map_option caller_pc (run zero_platform [Close, Close] s) = Some (Pending f)"
    by simp
  moreover from b have "map_option caller_pc (step zero_platform CallerDone t)
      = Some (Returned (Some DeadlineExceeded))"
    by auto
  ultimately show ?thesis unfolding s_def t_def f_def by blast
qed





section \<open>Stopping\<close>



section \<open>A hand-off under a cancelled context\<close>

text \<open>
  C10. Called with a context that is already cancelled, \<^verbatim>\<open>setNextCommand\<close> returns the
  context's error at its first check, whatever the channel would have done: no frame is
  built, the command is not touched, nothing is handed off. In the running driver the call
  has returned for good, the loop never receives anything from it, keeps the frame it had,
  and goes on publishing that frame only.
\<close>

theorem setNextCommand_cancelled_on_entry:
  "setNextCommand P (Some err) sel cmd = Some (Some err, None, cmd)
   \<and> setNextCommand_enter P (Some err) cmd = Inl err
   \<and> (caller_pc s = Idle \<and> caller_ctx s = Some err \<longrightarrow>
        step P Enter s = Some (s\<lparr>caller_pc := Returned (Some err)\<rparr>)
        \<and> (\<forall>as s'. run P (Enter # as) s = Some s' \<longrightarrow>
              caller_pc s' = Returned (Some err) \<and> caller_cmd s' = caller_cmd s
              \<and> loop_frame s' = loop_frame s
              \<and> (\<exists>k. wire s' = wire s @ replicate k (loop_frame s))))"
proof -
  have P1: "setNextCommand P (Some err) sel cmd = Some (Some err, None, cmd)"
    by (simp add: setNextCommand_def setNextCommand_enter_def)
  have P2: "setNextCommand_enter P (Some err) cmd = Inl err"
    by (simp add: setNextCommand_enter_def)
  have P3: "caller_pc s = Idle \<and> caller_ctx s = Some err \<longrightarrow>
        step P Enter s = Some (s\<lparr>caller_pc := Returned (Some err)\<rparr>)
        \<and> (\<forall>as s'. run P (Enter # as) s = Some s' \<longrightarrow>
              caller_pc s' = Returned (Some err) \<and> caller_cmd s' = caller_cmd s
              \<and> loop_frame s' = loop_frame s
              \<and> (\<exists>k. wire s' = wire s @ replicate k (loop_frame s)))"
  proof (intro impI)
    assume h: "caller_pc s = Idle \<and> caller_ctx s = Some err"
    define s1 where "s1 = s\<lparr>caller_pc := Returned (Some err)\<rparr>"
    from h have e: "step P Enter s = Some s1"
      by (simp add: setNextCommand_enter_def s1_def)
    have after: "caller_pc s' = Returned (Some err) \<and> caller_cmd s' = caller_cmd s
        \<and> loop_frame s' = loop_frame s
        \<and> (\<exists>k. wire s' = wire s @ replicate k (loop_frame s))"
      if "run P (Enter # as) s = Some s'" for as s'
    proof -
      from that e have "run P as s1 = Some s'" by simp
      from run_returned[OF this, of "Some err"] show ?thesis by (simp add: s1_def)
    qed
    from e after show "step P Enter s = Some (s\<lparr>caller_pc := Returned (Some err)\<rparr>)
        \<and> (\<forall>as s'. run P (Enter # as) s = Some s' \<longrightarrow>
              caller_pc s' = Returned (Some err) \<and> caller_cmd s' = caller_cmd s
              \<and> loop_frame s' = loop_frame s
              \<and> (\<exists>k. wire s' = wire s @ replicate k (loop_frame s)))"
      unfolding s1_def by blast
  qed
  from P1 P2 P3 show ?thesis by (intro conjI)
qed

theorem setNextCommand_cancelled_on_entry_witness:
  "setNextCommand zero_platform (Some Canceled) Sent
      \<lparr>Accelerator = Fin (- 50), Brake = Fin 0, SteeringAngle = Fin 0, Gear = 3, SteerMode = 2\<rparr>
     = Some (Some Canceled, None,
         \<lparr>Accelerator = Fin (- 50), Brake = Fin 0, SteeringAngle = Fin 0, Gear = 3, SteerMode = 2\<rparr>)
   \<and> map_option (\<lambda>s. (caller_pc s, Gear (caller_cmd s), wire s))
       (run zero_platform [Enter, Check, Timeout, Send]
         (newBase zero_platform (Some Canceled)
           \<lparr>Accelerator = Fin (- 50), Brake = Fin 0, SteeringAngle = Fin 0, Gear = 3,
            SteerMode = 2\<rparr>))
     = Some (Returned (Some Canceled), 3,
         [\<lparr>ID = 0x220, Data = [0x00, 0x00, 0x40, 0x06, 0x00, 0x00, 0x00, 0x02], Kind = SFF\<rparr>])"
proof -
  define c where "c = \<lparr>Accelerator = Fin (- 50), Brake = Fin 0, SteeringAngle = Fin 0,
      Gear = 3, SteerMode = 2\<rparr>"
  define s where "s = newBase zero_platform (Some Canceled) c"
  define F where "F = fst (toFrame zero_platform stopCmd)"
  define s' where "s' = s\<lparr>loop_pc := AtCheck, wire := [F], caller_pc := Returned (Some Canceled)\<rparr>"
  note T = setNextCommand_cancelled_on_entry[of zero_platform Canceled Sent c s]
  from T have a: "setNextCommand zero_platform (Some Canceled) Sent c = Some (Some Canceled, None, c)"
    by blast
  have pre: "caller_pc s = Idle \<and> caller_ctx s = Some Canceled" by (simp add: s_def)
  have r: "run zero_platform (Enter # [Check, Timeout, Send]) s = Some s'"
    by (simp add: s_def s'_def F_def setNextCommand_enter_def newBase_def)
  from T pre have "run zero_platform (Enter # [Check, Timeout, Send]) s = Some s' \<longrightarrow>
      caller_pc s' = Returned (Some Canceled) \<and> caller_cmd s' = caller_cmd s"
    by blast
  with r have "caller_pc s' = Returned (Some Canceled)" and "caller_cmd s' = caller_cmd s"
    by blast+
  moreover have "wire s' = [F]" by (simp add: s'_def)
  moreover have "Gear (caller_cmd s) = 3" by (simp add: s_def c_def)
  ultimately have "map_option (\<lambda>s. (caller_pc s, Gear (caller_cmd s), wire s))
      (run zero_platform [Enter, Check, Timeout, Send] s) = Some (Returned (Some Canceled), 3, [F])"
    using r by simp
  with a show ?thesis unfolding s_def c_def F_def by (simp add: toFrame_stopCmd)
qed














section \<open>Moving straight\<close>







section \<open>Unsupported operations\<close>

text \<open>
  C9. \<^verbatim>\<open>IsMoving\<close> reports no motion state and always returns the unimplemented error.
  \<^verbatim>\<open>DoCommand\<close> fails on every input, at once: with the missing-value error when the map
  has no key \<open>command\<close>, and otherwise with the error whose message names the command it
  was given; it has no command it accepts.
\<close>

theorem unsupported_operations_fail:
  "IsMoving =
     (False, Some (UnimplementedInterfaceError ''intermodeBase does not yet support IsMoving()''))
   \<and> (cmd ''command'' = None \<longrightarrow>
        DoCommand fmt_s cmd = Inl (ErrorString ''missing 'command' value''))
   \<and> (\<forall>name. cmd ''command'' = Some name \<longrightarrow>
        DoCommand fmt_s cmd = Inl (ErrorString (''no such command: '' @ fmt_s name)))
   \<and> (\<exists>err. DoCommand fmt_s cmd = Inl err)"
  by (cases "cmd ''command''") (simp_all add: IsMoving_def DoCommand_def)

theorem unsupported_operations_fail_witness:
  "DoCommand (\<lambda>v. v) [''command'' \<mapsto> ''open_door''] =
     Inl (ErrorString ''no such command: open_door'')
   \<and> DoCommand (\<lambda>v. v) [''door'' \<mapsto> ''open''] = Inl (ErrorString ''missing 'command' value'')
   \<and> fst IsMoving = False"
proof -
  have a: "[''command'' \<mapsto> ''open_door''] ''command'' = Some ''open_door''"
    by simp
  have b: "[''door'' \<mapsto> ''open''] ''command'' = None"
    by simp
  have "DoCommand (\<lambda>v. v) [''command'' \<mapsto> ''open_door''] =
      Inl (ErrorString (''no such command: '' @ ''open_door''))"
    using unsupported_operations_fail [of "[''command'' \<mapsto> ''open_door'']" "\<lambda>v. v"] a
    by blast
  moreover have "DoCommand (\<lambda>v. v) [''door'' \<mapsto> ''open''] =
      Inl (ErrorString ''missing 'command' value'')"
    using unsupported_operations_fail [of "[''door'' \<mapsto> ''open'']" "\<lambda>v. v"] b
    by blast
  moreover have "fst IsMoving = False"
    using unsupported_operations_fail [of "[''door'' \<mapsto> ''open'']" "\<lambda>v. v"]
    by (metis fst_conv)
  ultimately show ?thesis by simp
qed

end
